theory Spec2Isabelle
  imports Main
begin

section \<open>Python strings\<close>

text \<open>
  A Python \<open>str\<close> is a sequence of Unicode code points. A code point is a natural
  number here, so that the bullet dot U+2022 and the arrow U+27A4 of the source are one
  character each, as they are for \<open>str.strip\<close> and for \<open>re\<close>.
  \<open>str\<close> turns an ASCII literal into such a sequence.
\<close>

type_synonym pystr = "nat list"

definition str :: "string \<Rightarrow> pystr" where
  "str s = map of_char s"

text \<open>
  The characters \<open>str.strip()\<close> removes and the class \<open>\s\<close> of \<open>re\<close> on a
  \<open>str\<close> pattern are the same set, the interpreter's Unicode white space.
\<close>

definition is_space :: "nat \<Rightarrow> bool" where
  "is_space c \<longleftrightarrow>
     (9 \<le> c \<and> c \<le> 13) \<or> (28 \<le> c \<and> c \<le> 32) \<or> c = 133 \<or> c = 160 \<or> c = 5760 \<or>
     (8192 \<le> c \<and> c \<le> 8202) \<or> c = 8232 \<or> c = 8233 \<or> c = 8239 \<or> c = 8287 \<or>
     c = 12288"

text \<open>
  The class \<open>\d\<close> of \<open>re\<close> on a \<open>str\<close> pattern is the interpreter's table of
  Unicode decimal digits, which is no part of the repository: the functions below take
  it as the parameter \<open>dg\<close>. \<open>ascii_digit\<close> is its ASCII part, used to run the
  functions on ASCII input.
\<close>

definition ascii_digit :: "nat \<Rightarrow> bool" where
  "ascii_digit c \<longleftrightarrow> 48 \<le> c \<and> c \<le> 57"

text \<open>\<open>s.strip()\<close> and \<open>s.strip(chars)\<close>: both ends, every character of the set.\<close>

definition strip_with :: "(nat \<Rightarrow> bool) \<Rightarrow> pystr \<Rightarrow> pystr" where
  "strip_with p s = rev (dropWhile p (rev (dropWhile p s)))"

definition strip :: "pystr \<Rightarrow> pystr" where
  "strip s = strip_with is_space s"

text \<open>The argument of \<open>l.strip(" -\<bullet>\n")\<close>: space, hyphen, bullet dot U+2022, newline.\<close>

definition bullet_chars :: "nat \<Rightarrow> bool" where
  "bullet_chars c \<longleftrightarrow> c = 32 \<or> c = 45 \<or> c = 8226 \<or> c = 10"

text \<open>\<open>s.split("\n")\<close>: never the empty list, a trailing newline gives a last empty line.\<close>

fun split_nl :: "pystr \<Rightarrow> pystr list" where
  "split_nl [] = [[]]"
| "split_nl (c # cs) =
     (if c = 10 then [] # split_nl cs
      else (case split_nl cs of [] \<Rightarrow> [[c]] | l # ls \<Rightarrow> (c # l) # ls))"

section \<open>The regular expression of \<open>parse_slides\<close>\<close>

text \<open>
  \<open>Slide\s*\d+\s*:\<close> at the head of the text: the rest of the text after the colon
  when the marker is there. The word is matched as written (no \<open>re.IGNORECASE\<close>).
  White space, digits and the colon are disjoint, so the greedy scan is the only way
  the pattern can match.
\<close>

fun strip_prefix :: "pystr \<Rightarrow> pystr \<Rightarrow> pystr option" where
  "strip_prefix [] xs = Some xs"
| "strip_prefix (p # ps) [] = None"
| "strip_prefix (p # ps) (x # xs) = (if p = x then strip_prefix ps xs else None)"

definition marker :: "(nat \<Rightarrow> bool) \<Rightarrow> pystr \<Rightarrow> pystr option" where
  "marker dg xs =
     (case strip_prefix [83, 108, 105, 100, 101] xs of
        None \<Rightarrow> None
      | Some r \<Rightarrow>
          (case dropWhile is_space r of
             [] \<Rightarrow> None
           | d # r1 \<Rightarrow>
               if dg d then
                 (case dropWhile is_space (dropWhile dg r1) of
                    [] \<Rightarrow> None
                  | c # r2 \<Rightarrow> if c = 58 then Some r2 else None)
               else None))"

text \<open>
  The lookahead \<open>(?=Slide\s*\d+\s*:|$)\<close>: a marker, or \<open>$\<close>, which without
  \<open>re.MULTILINE\<close> holds at the end of the text and before a newline that ends it.
\<close>

definition lookahead :: "(nat \<Rightarrow> bool) \<Rightarrow> pystr \<Rightarrow> bool" where
  "lookahead dg xs = (case marker dg xs of Some r \<Rightarrow> True | None \<Rightarrow> xs = [] \<or> xs = [10])"

text \<open>
  The group \<open>(.*?)\<close> under \<open>re.DOTALL\<close>: the shortest run of any characters after
  which the lookahead holds; the captured text and the text left.
\<close>

fun lazy_capture :: "(nat \<Rightarrow> bool) \<Rightarrow> pystr \<Rightarrow> pystr \<times> pystr" where
  "lazy_capture dg [] = ([], [])"
| "lazy_capture dg (c # cs) =
     (if lookahead dg (c # cs) then ([], c # cs)
      else (case lazy_capture dg cs of (a, r) \<Rightarrow> (c # a, r)))"

text \<open>
  One match at the head of the text: the marker, \<open>\s*\<close>, the group. The group
  always finds an end (the end of the text at the latest), so \<open>\s*\<close> keeps all
  the white space it took.
\<close>

definition match_here :: "(nat \<Rightarrow> bool) \<Rightarrow> pystr \<Rightarrow> (pystr \<times> pystr) option" where
  "match_here dg xs =
     (case marker dg xs of
        None \<Rightarrow> None
      | Some r \<Rightarrow> Some (lazy_capture dg (dropWhile is_space r)))"

lemma strip_prefix_length:
  "strip_prefix ps xs = Some r \<Longrightarrow> length r + length ps = length xs"
  by (induction ps xs rule: strip_prefix.induct) (auto split: if_splits)

lemma length_dropWhile_cons:
  "dropWhile p xs = y # ys \<Longrightarrow> length ys < length xs"
  using length_dropWhile_le [of p xs] by simp

lemma marker_length:
  assumes "marker dg xs = Some r"
  shows "length r < length xs"
proof -
  from assms obtain r0 d r1 c where
    p: "strip_prefix [83, 108, 105, 100, 101] xs = Some r0" and
    d: "dropWhile is_space r0 = d # r1" and
    c: "dropWhile is_space (dropWhile dg r1) = c # r"
    by (auto simp: marker_def split: option.splits list.splits if_splits)
  have "length r < length (dropWhile dg r1)"
    using c by (rule length_dropWhile_cons)
  also have "\<dots> \<le> length r1" by (rule length_dropWhile_le)
  also have "\<dots> < length r0" using d by (rule length_dropWhile_cons)
  also have "\<dots> \<le> length xs" using strip_prefix_length [OF p] by simp
  finally show ?thesis .
qed

lemma lazy_capture_length:
  "lazy_capture dg xs = (a, r) \<Longrightarrow> length r \<le> length xs"
  by (induction xs arbitrary: a r) (auto split: if_splits prod.splits)

lemma match_here_length:
  assumes "match_here dg xs = Some (a, r)"
  shows "length r < length xs"
proof -
  from assms obtain r0 where m: "marker dg xs = Some r0"
    and l: "lazy_capture dg (dropWhile is_space r0) = (a, r)"
    by (auto simp: match_here_def split: option.splits)
  have "length r \<le> length (dropWhile is_space r0)"
    using l by (rule lazy_capture_length)
  also have "\<dots> \<le> length r0" by (rule length_dropWhile_le)
  also have "\<dots> < length xs" using m by (rule marker_length)
  finally show ?thesis .
qed

text \<open>
  \<open>re.findall\<close> with one group: the captured texts of the matches, leftmost first,
  each search starting where the last match ended.
\<close>

function findall :: "(nat \<Rightarrow> bool) \<Rightarrow> pystr \<Rightarrow> pystr list" where
  "findall dg [] = []"
| "findall dg (c # cs) =
     (case match_here dg (c # cs) of
        None \<Rightarrow> findall dg cs
      | Some (a, r) \<Rightarrow> a # findall dg r)"
  by pat_completeness auto
termination
  by (relation "measure (\<lambda>(dg, xs). length xs)") (auto dest: match_here_length)

section \<open>\<open>parse_slides\<close>\<close>

record slide_record =
  title :: pystr
  points :: "pystr list"

text \<open>The list comprehension: the lines of one captured segment.\<close>

definition segment_lines :: "pystr \<Rightarrow> pystr list" where
  "segment_lines s =
     map (strip_with bullet_chars) (filter (\<lambda>l. strip l \<noteq> []) (split_nl (strip s)))"

text \<open>The loop over the segments, appending to \<open>parsed\<close>.\<close>

fun parse_loop :: "pystr list \<Rightarrow> slide_record list \<Rightarrow> slide_record list" where
  "parse_loop [] parsed = parsed"
| "parse_loop (s # ss) parsed =
     (case segment_lines s of
        [] \<Rightarrow> parse_loop ss parsed
      | l # ls \<Rightarrow> parse_loop ss (parsed @ [\<lparr>title = l, points = ls\<rparr>]))"

text \<open>The slice \<open>xs[:n]\<close>: a negative \<open>n\<close> counts from the end.\<close>

definition slice_to :: "'a list \<Rightarrow> int \<Rightarrow> 'a list" where
  "slice_to xs n = (if 0 \<le> n then take (nat n) xs else take (nat (int (length xs) + n)) xs)"

definition parse_slides :: "(nat \<Rightarrow> bool) \<Rightarrow> pystr \<Rightarrow> int \<Rightarrow> slide_record list" where
  "parse_slides dg text max_slides = slice_to (parse_loop (findall dg text) []) max_slides"

section \<open>\<open>apply_template_style\<close>\<close>

text \<open>
  \<open>RGBColor(r, g, b)\<close> is a triple of numbers; the library accepts 0 to 255 for each.
  The dictionary of one theme has the keys \<open>"bg"\<close> and \<open>"text"\<close>.
\<close>

type_synonym rgb = "nat \<times> nat \<times> nat"

definition valid_rgb :: "rgb \<Rightarrow> bool" where
  "valid_rgb c = (case c of (r, g, b) \<Rightarrow> r < 256 \<and> g < 256 \<and> b < 256)"

record colors =
  c_bg :: rgb
  c_text :: rgb

datatype error = KeyError

definition theme_colors :: "(pystr \<times> colors) list" where
  "theme_colors =
     [(str ''modern'', \<lparr>c_bg = (25, 25, 112), c_text = (255, 255, 255)\<rparr>),
      (str ''minimal'', \<lparr>c_bg = (255, 255, 255), c_text = (30, 30, 30)\<rparr>),
      (str ''corporate'', \<lparr>c_bg = (0, 51, 102), c_text = (255, 215, 0)\<rparr>),
      (str ''creative'', \<lparr>c_bg = (128, 0, 128), c_text = (255, 255, 255)\<rparr>),
      (str ''dark'', \<lparr>c_bg = (15, 15, 15), c_text = (200, 200, 200)\<rparr>)]"

text \<open>
  \<open>theme_colors.get(template, theme_colors["modern"])\<close>: the default is read with
  \<open>[]\<close>, which raises \<open>KeyError\<close> on a missing key, before \<open>get\<close> runs.
\<close>

definition theme_lookup :: "pystr \<Rightarrow> error + colors" where
  "theme_lookup template =
     (case map_of theme_colors (str ''modern'') of
        None \<Rightarrow> Inl KeyError
      | Some dflt \<Rightarrow>
          (case map_of theme_colors template of None \<Rightarrow> Inr dflt | Some c \<Rightarrow> Inr c))"

section \<open>The presentation\<close>

text \<open>
  What the code writes into the \<open>python-pptx\<close> objects, as the document then holds
  it, and nothing else of them: a paragraph with its text and font, a text frame with
  its paragraphs, a slide with its background and its text boxes in the order they
  were added. The positions and sizes of the boxes and of the slide (\<open>Inches\<close> of
  floating-point numbers) are left out. Sizes of fonts and spacing are in points.
\<close>








datatype align = CENTER

record pptx_paragraph =
  p_text :: pystr
  font_size :: "nat option"
  font_bold :: "bool option"
  font_color :: "rgb option"
  alignment :: "align option"
  level :: nat
  space_after :: "nat option"


record text_frame =
  paragraphs :: "pptx_paragraph list"
  word_wrap :: "bool option"




record slide =
  background :: "rgb option"
  shapes :: "text_frame list"



text \<open>
  \<open>apply_template_style\<close> fills the background of the slide and returns the text
  colour.
\<close>

definition apply_template_style :: "slide \<Rightarrow> pystr \<Rightarrow> error + slide \<times> rgb" where
  "apply_template_style sl template =
     (case theme_lookup template of
        Inl e \<Rightarrow> Inl e
      | Inr cs \<Rightarrow> Inr (sl\<lparr>background := Some (c_bg cs)\<rparr>, c_text cs))"

section \<open>\<open>create_ppt_from_slides\<close>\<close>







section \<open>The routes\<close>









section \<open>The markers of a text\<close>

text \<open>
  The number of places of a text at which a marker \<open>Slide <number>:\<close> starts: the
  \<open>K\<close> of "a text containing exactly \<open>K\<close> markers".
\<close>

fun count_markers :: "(nat \<Rightarrow> bool) \<Rightarrow> pystr \<Rightarrow> nat" where
  "count_markers dg [] = 0"
| "count_markers dg (c # cs) =
     (case marker dg (c # cs) of
        None \<Rightarrow> count_markers dg cs
      | Some r \<Rightarrow> Suc (count_markers dg cs))"



text \<open>
  What the interpreter's digit table satisfies and the scan of \<open>marker\<close> relies on:
  no digit is white space or the colon.
\<close>

definition digits_disjoint :: "(nat \<Rightarrow> bool) \<Rightarrow> bool" where
  "digits_disjoint dg \<longleftrightarrow> (\<forall>c. dg c \<longrightarrow> \<not> is_space c \<and> c \<noteq> 58)"

section \<open>Properties of the parser\<close>

text \<open>The definitions that running the parser on a given text unfolds.\<close>

lemmas parser_defs =
  parse_slides_def slice_to_def segment_lines_def strip_def strip_with_def is_space_def
  bullet_chars_def ascii_digit_def str_def match_here_def marker_def lookahead_def

lemma marker_Nil: "marker dg [] = None"
  by (simp add: marker_def)

lemma findall_no_marker:
  "count_markers dg xs = 0 \<Longrightarrow> findall dg xs = []"
  by (induction xs) (auto simp: match_here_def split: option.splits)

text \<open>A text counts no marker exactly when no marker starts at any of its places.\<close>

lemma count_markers_0_iff:
  "count_markers dg xs = 0 \<longleftrightarrow> (\<forall>i. marker dg (drop i xs) = None)"
proof (induction xs)
  case Nil
  show ?case by (simp add: marker_Nil)
next
  case (Cons c cs)
  show ?case
  proof
    assume "count_markers dg (c # cs) = 0"
    then have m: "marker dg (c # cs) = None" and r: "count_markers dg cs = 0"
      by (auto split: option.splits)
    show "\<forall>i. marker dg (drop i (c # cs)) = None"
    proof
      fix i
      show "marker dg (drop i (c # cs)) = None"
        using m r Cons.IH by (cases i) auto
    qed
  next
    assume a: "\<forall>i. marker dg (drop i (c # cs)) = None"
    then have "marker dg (drop 0 (c # cs)) = None" by blast
    moreover have "\<forall>i. marker dg (drop i cs) = None"
    proof
      fix i
      show "marker dg (drop i cs) = None" using a [rule_format, of "Suc i"] by simp
    qed
    ultimately show "count_markers dg (c # cs) = 0"
      using Cons.IH by simp
  qed
qed

lemma slice_to_Nil: "slice_to [] n = []"
  by (simp add: slice_to_def)

text \<open>
  C9. \<open>parse_slides\<close> returns the empty list for the empty text and for every text in
  which no marker starts, whatever \<open>max_slides\<close> is. The function is total: there is
  no input on which it raises.
\<close>

theorem parse_slides_no_marker:
  "parse_slides dg [] n = [] \<and>
   (count_markers dg txt = 0 \<longrightarrow> parse_slides dg txt n = [])"
  by (simp add: parse_slides_def findall_no_marker slice_to_Nil)

theorem parse_slides_no_marker_witness:
  "count_markers ascii_digit (str ''Just some text, no slides'') = 0 \<and>
   parse_slides ascii_digit (str ''Just some text, no slides'') 6 = []"
proof -
  have h: "count_markers ascii_digit (str ''Just some text, no slides'') = 0"
    by code_simp
  have e: "parse_slides ascii_digit (str ''Just some text, no slides'') 6 = []"
    by (rule parse_slides_no_marker [THEN conjunct2, THEN mp, OF h])
  show ?thesis
    by (intro conjI h e)
qed

lemma findall_preamble:
  "(\<forall>i<length pre. marker dg (drop i pre @ rest) = None) \<Longrightarrow>
   findall dg (pre @ rest) = findall dg rest"
proof (induction pre)
  case Nil
  show ?case by simp
next
  case (Cons c cs)
  from Cons.prems have "marker dg (drop 0 (c # cs) @ rest) = None" by blast
  then have m: "match_here dg (c # cs @ rest) = None"
    by (simp add: match_here_def)
  have "\<forall>i<length cs. marker dg (drop i cs @ rest) = None"
  proof (intro allI impI)
    fix i assume "i < length cs"
    then have "Suc i < length (c # cs)" by simp
    with Cons.prems have "marker dg (drop (Suc i) (c # cs) @ rest) = None" by blast
    then show "marker dg (drop i cs @ rest) = None" by simp
  qed
  with Cons.IH have "findall dg (cs @ rest) = findall dg rest" by blast
  with m show ?case by simp
qed

lemma no_marker_by_list_all:
  "list_all (\<lambda>i. marker dg (drop i pre @ rest) = None) [0..<length pre] \<Longrightarrow>
   \<forall>i<length pre. marker dg (drop i pre @ rest) = None"
  by (simp add: list_all_iff)

text \<open>
  C10. The text before the first marker is discarded: when no marker starts inside
  the preamble \<open>pre\<close>, parsing \<open>pre @ rest\<close> gives the records of \<open>rest\<close> alone,
  for every \<open>max_slides\<close>, so that nothing of the preamble is in any title or point.
\<close>

theorem parse_slides_preamble:
  "(\<forall>i<length pre. marker dg (drop i pre @ rest) = None) \<Longrightarrow>
   parse_slides dg (pre @ rest) n = parse_slides dg rest n"
  by (simp add: parse_slides_def findall_preamble)

theorem parse_slides_preamble_witness:
  "list_all (\<lambda>i. marker ascii_digit (drop i (str ''Here is your deck: '') @ str ''Slide 1: Intro'')
      = None) [0..<length (str ''Here is your deck: '')] \<and>
   parse_slides ascii_digit (str ''Here is your deck: '' @ str ''Slide 1: Intro'') 6 =
     parse_slides ascii_digit (str ''Slide 1: Intro'') 6 \<and>
   parse_slides ascii_digit (str ''Slide 1: Intro'') 6 = [\<lparr>title = str ''Intro'', points = []\<rparr>]"
proof -
  have h: "list_all (\<lambda>i. marker ascii_digit (drop i (str ''Here is your deck: '') @ str ''Slide 1: Intro'')
      = None) [0..<length (str ''Here is your deck: '')]"
    by code_simp
  have r: "parse_slides ascii_digit (str ''Slide 1: Intro'') 6 = [\<lparr>title = str ''Intro'', points = []\<rparr>]"
    by (simp add: parser_defs)
  have e: "parse_slides ascii_digit (str ''Here is your deck: '' @ str ''Slide 1: Intro'') 6 =
     parse_slides ascii_digit (str ''Slide 1: Intro'') 6"
    by (rule parse_slides_preamble [OF no_marker_by_list_all [OF h]])
  show ?thesis
    by (intro conjI h e r)
qed

subsection \<open>The marker\<close>

lemma str_Slide: "str ''Slide'' = [83, 108, 105, 100, 101]"
  by (simp add: str_def)

lemma strip_prefix_Some: "strip_prefix ps xs = Some r \<longleftrightarrow> xs = ps @ r"
  by (induction ps xs rule: strip_prefix.induct) auto

lemma dropWhile_skip:
  "list_all p ws \<Longrightarrow> \<not> p y \<Longrightarrow> dropWhile p (ws @ y # ys) = y # ys"
  by (induction ws) auto

lemma marker_intro:
  assumes dd: "digits_disjoint dg"
    and ws1: "list_all is_space ws1" and ds: "ds \<noteq> []" "list_all dg ds"
    and ws2: "list_all is_space ws2"
  shows "marker dg ([83, 108, 105, 100, 101] @ ws1 @ ds @ ws2 @ 58 # r) = Some r"
proof -
  from ds obtain d ds' where d: "ds = d # ds'" "dg d" "list_all dg ds'"
    by (cases ds) auto
  have nd: "\<not> is_space d" using dd d(2) by (simp add: digits_disjoint_def)
  have n58: "\<not> is_space 58" by (simp add: is_space_def)
  have a: "dropWhile is_space (ws1 @ ds @ ws2 @ 58 # r) = d # (ds' @ ws2 @ 58 # r)"
    using dropWhile_skip [OF ws1 nd] d(1) by simp
  have b: "dropWhile is_space (ws2 @ 58 # r) = 58 # r"
    by (rule dropWhile_skip [OF ws2 n58])
  have c: "dropWhile dg (ds' @ ws2 @ 58 # r) = ws2 @ 58 # r"
  proof (cases ws2)
    case Nil
    have "\<not> dg 58" using dd by (auto simp: digits_disjoint_def)
    from dropWhile_skip [OF d(3) this] Nil show ?thesis by simp
  next
    case (Cons w ws)
    with ws2 have "is_space w" by simp
    then have "\<not> dg w" using dd by (auto simp: digits_disjoint_def)
    from dropWhile_skip [OF d(3) this] Cons show ?thesis by simp
  qed
  have p: "strip_prefix [83, 108, 105, 100, 101] ([83, 108, 105, 100, 101] @ ws1 @ ds @ ws2 @ 58 # r)
      = Some (ws1 @ ds @ ws2 @ 58 # r)"
    by (simp only: strip_prefix_Some)
  show ?thesis
    unfolding marker_def p using a b c d(2) by simp
qed

lemma marker_elim:
  assumes "marker dg xs = Some r"
  shows "\<exists>ws1 ds ws2. xs = [83, 108, 105, 100, 101] @ ws1 @ ds @ ws2 @ 58 # r \<and>
           list_all is_space ws1 \<and> ds \<noteq> [] \<and> list_all dg ds \<and> list_all is_space ws2"
proof -
  from assms obtain r0 d r1 where
    p: "strip_prefix [83, 108, 105, 100, 101] xs = Some r0" and
    d: "dropWhile is_space r0 = d # r1" "dg d" and
    c: "dropWhile is_space (dropWhile dg r1) = 58 # r"
    by (auto simp: marker_def split: option.splits list.splits if_splits)
  let ?ws1 = "takeWhile is_space r0"
  let ?ds = "d # takeWhile dg r1"
  let ?ws2 = "takeWhile is_space (dropWhile dg r1)"
  have "xs = [83, 108, 105, 100, 101] @ r0" using p by (simp only: strip_prefix_Some)
  moreover have "r0 = ?ws1 @ d # r1" using d(1) takeWhile_dropWhile_id [of is_space r0] by simp
  moreover have "r1 = takeWhile dg r1 @ dropWhile dg r1" by simp
  moreover have "dropWhile dg r1 = ?ws2 @ 58 # r"
    using c takeWhile_dropWhile_id [of is_space "dropWhile dg r1"] by simp
  ultimately have "xs = [83, 108, 105, 100, 101] @ ?ws1 @ ?ds @ ?ws2 @ 58 # r"
    by (metis append_Cons append_assoc)
  moreover have "list_all is_space ?ws1" "list_all is_space ?ws2" "list_all dg ?ds"
    using d(2) by (auto simp: list_all_iff dest: set_takeWhileD)
  ultimately show ?thesis by blast
qed

lemma ascii_digits_disjoint: "digits_disjoint ascii_digit"
  by (auto simp: digits_disjoint_def ascii_digit_def is_space_def)

text \<open>
  C2, as the code has it. The marker is the word \<open>Slide\<close> exactly as written (capital
  \<open>S\<close>, the rest in lower case), any white space, one digit or more, any white space,
  a colon: the pattern has no \<open>re.IGNORECASE\<close>. A five-letter word of any other
  capitalization starts no marker.
\<close>

theorem marker_case_sensitive:
  assumes "digits_disjoint dg"
  shows "(marker dg xs = Some r \<longleftrightarrow>
           (\<exists>ws1 ds ws2. xs = str ''Slide'' @ ws1 @ ds @ ws2 @ 58 # r \<and>
              list_all is_space ws1 \<and> ds \<noteq> [] \<and> list_all dg ds \<and> list_all is_space ws2)) \<and>
         (length w = 5 \<and> w \<noteq> str ''Slide'' \<longrightarrow> marker dg (w @ ys) = None)"
proof
  show "marker dg xs = Some r \<longleftrightarrow>
           (\<exists>ws1 ds ws2. xs = str ''Slide'' @ ws1 @ ds @ ws2 @ 58 # r \<and>
              list_all is_space ws1 \<and> ds \<noteq> [] \<and> list_all dg ds \<and> list_all is_space ws2)"
    unfolding str_Slide using marker_intro [OF assms] marker_elim by blast
  show "length w = 5 \<and> w \<noteq> str ''Slide'' \<longrightarrow> marker dg (w @ ys) = None"
  proof
    assume a: "length w = 5 \<and> w \<noteq> str ''Slide''"
    show "marker dg (w @ ys) = None"
    proof (rule ccontr)
      assume "marker dg (w @ ys) \<noteq> None"
      then obtain r' where "marker dg (w @ ys) = Some r'" by auto
      from marker_elim [OF this] obtain zs where e: "w @ ys = [83, 108, 105, 100, 101] @ zs"
        by blast
      from a have l: "length w = length [83, 108, 105, 100, 101::nat]" by simp
      have "w = [83, 108, 105, 100, 101]"
        using l e by (metis append_eq_append_conv)
      with a show False by (simp add: str_Slide)
    qed
  qed
qed

theorem marker_case_sensitive_witness:
  "digits_disjoint ascii_digit \<and>
   marker ascii_digit (str ''Slide'' @ str ''  '' @ str ''12'' @ str '' '' @ 58 # str '' x'')
     = Some (str '' x'') \<and>
   marker ascii_digit (str ''SLIDE'' @ str '' 1: x'') = None"
proof -
  have ex: "\<exists>ws1 ds ws2.
      str ''Slide'' @ str ''  '' @ str ''12'' @ str '' '' @ 58 # str '' x'' =
        str ''Slide'' @ ws1 @ ds @ ws2 @ 58 # str '' x'' \<and>
      list_all is_space ws1 \<and> ds \<noteq> [] \<and> list_all ascii_digit ds \<and> list_all is_space ws2"
    by (rule exI [of _ "str ''  ''"], rule exI [of _ "str ''12''"], rule exI [of _ "str '' ''"])
       (simp add: str_def is_space_def ascii_digit_def)
  have a: "marker ascii_digit (str ''Slide'' @ str ''  '' @ str ''12'' @ str '' '' @ 58 # str '' x'')
      = Some (str '' x'')"
    by (rule marker_case_sensitive [OF ascii_digits_disjoint, THEN conjunct1, THEN iffD2, OF ex])
  have b: "marker ascii_digit (str ''SLIDE'' @ str '' 1: x'') = None"
    by (rule marker_case_sensitive [OF ascii_digits_disjoint, THEN conjunct2, THEN mp])
       (simp add: str_def)
  show ?thesis by (intro conjI ascii_digits_disjoint a b)
qed

text \<open>
  C2, as the claim has it, fails: the same text with \<open>slide\<close> in lower case has no
  marker and gives no record, while with \<open>Slide\<close> it gives one.
\<close>

theorem parse_slides_case_counterexample:
  "parse_slides ascii_digit (str ''slide 1: Intro'') 6 = [] \<and>
   parse_slides ascii_digit (str ''Slide 1: Intro'') 6 = [\<lparr>title = str ''Intro'', points = []\<rparr>]"
  by (simp add: parser_defs)

subsection \<open>The lines of a segment\<close>

text \<open>
  C1. The claim fails on the code: a first line made of bullet characters only, such
  as \<open>-\<close>, passes the test \<open>if l.strip()\<close>, which removes white space, and is then
  emptied by \<open>l.strip(" -\<bullet>\n")\<close>. The segment is kept and its title is the empty
  text.
\<close>

theorem parse_slides_empty_title:
  "parse_slides ascii_digit (str ''Slide 1: -'') 6 = [\<lparr>title = [], points = []\<rparr>]"
  by (simp add: parser_defs)















subsection \<open>The number of records\<close>

lemma lazy_capture_append: "lazy_capture dg xs = (a, r) \<Longrightarrow> xs = a @ r"
  by (induction xs arbitrary: a r) (auto split: if_splits prod.splits)

lemma match_here_suffix:
  assumes "match_here dg xs = Some (a, r)"
  shows "\<exists>p. xs = p @ r \<and> p \<noteq> []"
proof -
  from assms obtain r0 where m: "marker dg xs = Some r0"
    and l: "lazy_capture dg (dropWhile is_space r0) = (a, r)"
    by (auto simp: match_here_def split: option.splits)
  from marker_elim [OF m] obtain ws1 ds ws2 where
    "xs = [83, 108, 105, 100, 101] @ ws1 @ ds @ ws2 @ 58 # r0" by blast
  then have p0: "xs = ([83, 108, 105, 100, 101] @ ws1 @ ds @ ws2 @ [58]) @ r0" by simp
  have p1: "r0 = takeWhile is_space r0 @ dropWhile is_space r0" by simp
  from lazy_capture_append [OF l] have "dropWhile is_space r0 = a @ r" .
  with p1 have "r0 = (takeWhile is_space r0 @ a) @ r" by simp
  with p0 have "xs = (([83, 108, 105, 100, 101] @ ws1 @ ds @ ws2 @ [58]) @ takeWhile is_space r0 @ a) @ r"
    by simp
  moreover have "([83, 108, 105, 100, 101] @ ws1 @ ds @ ws2 @ [58]) @ takeWhile is_space r0 @ a \<noteq> []"
    by simp
  ultimately show ?thesis by blast
qed

lemma count_markers_Cons: "count_markers dg cs \<le> count_markers dg (c # cs)"
  by (simp split: option.splits)

lemma count_markers_append: "count_markers dg r \<le> count_markers dg (p @ r)"
proof (induction p)
  case Nil
  show ?case by simp
next
  case (Cons c p)
  have "count_markers dg (p @ r) \<le> count_markers dg (c # p @ r)"
    by (rule count_markers_Cons)
  with Cons show ?case by simp
qed

lemma findall_length: "length (findall dg xs) \<le> count_markers dg xs"
proof (induction dg xs rule: findall.induct)
  case (1 dg)
  show ?case by simp
next
  case (2 dg c cs)
  show ?case
  proof (cases "match_here dg (c # cs)")
    case None
    with 2 have "length (findall dg (c # cs)) \<le> count_markers dg cs" by simp
    also have "\<dots> \<le> count_markers dg (c # cs)" by (rule count_markers_Cons)
    finally show ?thesis .
  next
    case (Some ar)
    obtain a r where ar: "ar = (a, r)" by (cases ar)
    with Some have mh: "match_here dg (c # cs) = Some (a, r)" by simp
    then obtain r0 where m: "marker dg (c # cs) = Some r0"
      by (auto simp: match_here_def split: option.splits)
    from match_here_suffix [OF mh] obtain p where p: "c # cs = p @ r" "p \<noteq> []" by blast
    then have "cs = tl p @ r" by (cases p) auto
    then have "count_markers dg r \<le> count_markers dg cs"
      using count_markers_append [of dg r "tl p"] by simp
    moreover have "length (findall dg r) \<le> count_markers dg r"
      using 2(2) [OF mh [unfolded ar [symmetric]] ar [symmetric]] ar by simp
    moreover have "count_markers dg (c # cs) = Suc (count_markers dg cs)"
      using m by simp
    moreover have "findall dg (c # cs) = a # findall dg r" using mh by simp
    ultimately show ?thesis by simp
  qed
qed

lemma parse_loop_length: "length (parse_loop ss acc) \<le> length acc + length ss"
proof (induction ss arbitrary: acc)
  case Nil
  show ?case by simp
next
  case (Cons s ss)
  show ?case
  proof (cases "segment_lines s")
    case Nil
    with Cons [of acc] show ?thesis by simp
  next
    case (Cons l ls)
    with Cons.IH [of "acc @ [\<lparr>title = l, points = ls\<rparr>]"] show ?thesis by simp
  qed
qed

text \<open>
  C4, as the code has it. For \<open>max_slides\<close> of zero or more, there are at most
  \<open>min K max_slides\<close> records, where \<open>K\<close> markers start in the text, and the result
  is the first \<open>max_slides\<close> of the records parsed, with nothing added.
\<close>

theorem parse_slides_at_most:
  assumes "0 \<le> n"
  shows "int (length (parse_slides dg txt n)) \<le> min (int (count_markers dg txt)) n \<and>
         parse_slides dg txt n = take (nat n) (parse_loop (findall dg txt) [])"
proof
  have e: "parse_slides dg txt n = take (nat n) (parse_loop (findall dg txt) [])"
    using assms by (simp add: parse_slides_def slice_to_def)
  then show "parse_slides dg txt n = take (nat n) (parse_loop (findall dg txt) [])" .
  have "length (parse_loop (findall dg txt) []) \<le> length (findall dg txt)"
    using parse_loop_length [of "findall dg txt" "[]"] by simp
  also have "\<dots> \<le> count_markers dg txt" by (rule findall_length)
  finally have "length (parse_loop (findall dg txt) []) \<le> count_markers dg txt" .
  moreover have "length (parse_slides dg txt n) = min (length (parse_loop (findall dg txt) [])) (nat n)"
    by (simp add: e)
  ultimately show "int (length (parse_slides dg txt n)) \<le> min (int (count_markers dg txt)) n"
    using assms by linarith
qed

theorem parse_slides_at_most_witness:
  "(0::int) \<le> 2 \<and>
   count_markers ascii_digit (str ''Slide 1: a Slide 2: b Slide 3: c'') = 3 \<and>
   int (length (parse_slides ascii_digit (str ''Slide 1: a Slide 2: b Slide 3: c'') 2))
     \<le> min (int (count_markers ascii_digit (str ''Slide 1: a Slide 2: b Slide 3: c''))) 2 \<and>
   parse_slides ascii_digit (str ''Slide 1: a Slide 2: b Slide 3: c'') 2 =
     [\<lparr>title = str ''a'', points = []\<rparr>, \<lparr>title = str ''b'', points = []\<rparr>]"
proof -
  have h: "(0::int) \<le> 2" by simp
  have k: "count_markers ascii_digit (str ''Slide 1: a Slide 2: b Slide 3: c'') = 3"
    by (simp add: parser_defs)
  have v: "parse_slides ascii_digit (str ''Slide 1: a Slide 2: b Slide 3: c'') 2 =
     [\<lparr>title = str ''a'', points = []\<rparr>, \<lparr>title = str ''b'', points = []\<rparr>]"
    by (simp add: parser_defs)
  show ?thesis
    by (intro conjI h k v parse_slides_at_most [OF h, THEN conjunct1])
qed

text \<open>
  C4, as the claim has it, fails for a negative \<open>max_slides\<close>: the slice
  \<open>parsed[:-1]\<close> drops the last record only, and two records are more than
  \<open>min 3 (-1)\<close>.
\<close>

theorem parse_slides_negative_counterexample:
  "length (parse_slides ascii_digit (str ''Slide 1: a Slide 2: b Slide 3: c'') (- 1)) = 2 \<and>
   count_markers ascii_digit (str ''Slide 1: a Slide 2: b Slide 3: c'') = 3 \<and>
   \<not> int (length (parse_slides ascii_digit (str ''Slide 1: a Slide 2: b Slide 3: c'') (- 1)))
       \<le> min (int (count_markers ascii_digit (str ''Slide 1: a Slide 2: b Slide 3: c''))) (- 1)"
  by (simp add: parser_defs)

subsection \<open>White space around the text\<close>

text \<open>
  White space before and after a text changes no record: no marker starts in it, and
  what it adds to the last segment is stripped with the segment.
\<close>

lemma marker_space_head: "is_space c \<Longrightarrow> marker dg (c # cs) = None"
  by (auto simp: marker_def is_space_def)

lemma marker_all_space: "list_all is_space ws \<Longrightarrow> marker dg (ws @ t) = None \<or> ws = []"
  by (cases ws) (auto simp: marker_space_head)













section \<open>Properties of the theme lookup\<close>

lemma theme_modern:
  "map_of theme_colors (str ''modern'') = Some \<lparr>c_bg = (25, 25, 112), c_text = (255, 255, 255)\<rparr>"
  by (simp add: theme_colors_def str_def)

lemma theme_colors_valid:
  "list_all (\<lambda>kc. valid_rgb (c_bg (snd kc)) \<and> valid_rgb (c_text (snd kc))) theme_colors"
  by (simp add: theme_colors_def valid_rgb_def)

lemma theme_lookup_Inr:
  "\<exists>c. theme_lookup t = Inr c \<and> valid_rgb (c_bg c) \<and> valid_rgb (c_text c)"
proof (cases "map_of theme_colors t")
  case None
  then have "theme_lookup t = Inr \<lparr>c_bg = (25, 25, 112), c_text = (255, 255, 255)\<rparr>"
    by (simp add: theme_lookup_def theme_modern)
  then show ?thesis by (simp add: valid_rgb_def)
next
  case (Some c)
  then have "(t, c) \<in> set theme_colors" by (rule map_of_SomeD)
  with theme_colors_valid have "valid_rgb (c_bg c) \<and> valid_rgb (c_text c)"
    by (auto simp: list_all_iff)
  moreover from Some have "theme_lookup t = Inr c"
    by (simp add: theme_lookup_def theme_modern)
  ultimately show ?thesis by simp
qed

lemma theme_lookup_unknown:
  "t \<notin> set (map fst theme_colors) \<Longrightarrow> theme_lookup t = theme_lookup (str ''modern'')"
proof -
  assume "t \<notin> set (map fst theme_colors)"
  then have "map_of theme_colors t = None" by (simp add: map_of_eq_None_iff)
  then show ?thesis by (simp add: theme_lookup_def theme_modern)
qed

lemma theme_keys:
  "map fst theme_colors =
     [str ''modern'', str ''minimal'', str ''corporate'', str ''creative'', str ''dark'']"
  by (simp add: theme_colors_def)

text \<open>
  C5. The lookup of \<open>apply_template_style\<close> has no error: for every name it gives
  a pair of colours, each a valid RGB triple, and \<open>apply_template_style\<close> fills the
  background with the first and returns the second. A name that is none of
  \<open>modern\<close>, \<open>minimal\<close>, \<open>corporate\<close>, \<open>creative\<close>, \<open>dark\<close> gives the pair of
  \<open>modern\<close>: so do \<open>unknown-xyz\<close> and the empty name.
\<close>

theorem theme_lookup_total:
  "(\<exists>c. theme_lookup t = Inr c \<and> valid_rgb (c_bg c) \<and> valid_rgb (c_text c) \<and>
        apply_template_style sl t = Inr (sl\<lparr>background := Some (c_bg c)\<rparr>, c_text c)) \<and>
   (t \<notin> set (map fst theme_colors) \<longrightarrow> theme_lookup t = theme_lookup (str ''modern'')) \<and>
   map fst theme_colors =
     [str ''modern'', str ''minimal'', str ''corporate'', str ''creative'', str ''dark''] \<and>
   theme_lookup (str ''unknown-xyz'') = theme_lookup (str ''modern'') \<and>
   theme_lookup [] = theme_lookup (str ''modern'') \<and>
   theme_lookup (str ''modern'') = Inr \<lparr>c_bg = (25, 25, 112), c_text = (255, 255, 255)\<rparr>"
proof (intro conjI)
  from theme_lookup_Inr [of t] obtain c where
    c: "theme_lookup t = Inr c" "valid_rgb (c_bg c)" "valid_rgb (c_text c)" by blast
  then have "apply_template_style sl t = Inr (sl\<lparr>background := Some (c_bg c)\<rparr>, c_text c)"
    by (simp add: apply_template_style_def)
  with c show "\<exists>c. theme_lookup t = Inr c \<and> valid_rgb (c_bg c) \<and> valid_rgb (c_text c) \<and>
        apply_template_style sl t = Inr (sl\<lparr>background := Some (c_bg c)\<rparr>, c_text c)"
    by blast
  show "t \<notin> set (map fst theme_colors) \<longrightarrow> theme_lookup t = theme_lookup (str ''modern'')"
    using theme_lookup_unknown by blast
  show "map fst theme_colors =
     [str ''modern'', str ''minimal'', str ''corporate'', str ''creative'', str ''dark'']"
    by (rule theme_keys)
  show "theme_lookup (str ''unknown-xyz'') = theme_lookup (str ''modern'')"
    by (rule theme_lookup_unknown) (simp add: theme_colors_def str_def)
  show "theme_lookup [] = theme_lookup (str ''modern'')"
    by (rule theme_lookup_unknown) (simp add: theme_colors_def str_def)
  show "theme_lookup (str ''modern'') = Inr \<lparr>c_bg = (25, 25, 112), c_text = (255, 255, 255)\<rparr>"
    by (simp add: theme_lookup_def theme_modern)
qed

theorem theme_lookup_total_witness:
  "str ''neon'' \<notin> set (map fst theme_colors) \<and>
   theme_lookup (str ''neon'') = theme_lookup (str ''modern'')"
proof -
  have h: "str ''neon'' \<notin> set (map fst theme_colors)"
    by (simp add: theme_colors_def str_def)
  have e: "theme_lookup (str ''neon'') = theme_lookup (str ''modern'')"
    by (rule theme_lookup_total [THEN conjunct2, THEN conjunct1, THEN mp, OF h])
  show ?thesis by (intro conjI h e)
qed

section \<open>Properties of the document builder\<close>











section \<open>Properties of the routes\<close>











end
